theory Spec2Isabelle
  imports Complex_Main "HOL-Library.Product_Lexorder"
begin

section \<open>Data model\<close>

text \<open>
  The program (\<^verbatim>\<open>program_10.py\<close>) works on pandas tables. A calendar day is a triple
  (year, month, day); the lexicographic order on triples is the chronological order, which
  is the order pandas uses on a \<^verbatim>\<open>DatetimeIndex\<close> of daily timestamps.

  A cell of a numeric column is a \<^verbatim>\<open>float64\<close>: either a number or NaN. A number is
  the real number that the float holds; NaN, which pandas uses for a missing value, is
  \<open>None\<close>. The arithmetic that \<^verbatim>\<open>CalcTqmean\<close>, \<^verbatim>\<open>CalcRBindex\<close> and
  \<^verbatim>\<open>CalcExceed3TimesMedian\<close> perform on cells is binary64 arithmetic, every operation
  rounded to nearest; it is defined below, after the reductions that need no rounding.
\<close>

type_synonym date = "int \<times> nat \<times> nat"

definition year :: "date \<Rightarrow> int" where
  "year d = fst d"

definition month :: "date \<Rightarrow> nat" where
  "month d = fst (snd d)"

definition day :: "date \<Rightarrow> nat" where
  "day d = snd (snd d)"

type_synonym cell = "real option"

text \<open>The columns that \<^verbatim>\<open>ReadData\<close> names, without the index column \<^verbatim>\<open>Date\<close>.\<close>

record row =
  agency_cd :: string
  site_no :: string
  Discharge :: cell
  Quality :: string

text \<open>A DataFrame indexed by \<^verbatim>\<open>Date\<close>: the rows in file order, each with its index label.\<close>

type_synonym frame = "(date \<times> row) list"

definition index :: "frame \<Rightarrow> date list" where
  "index df = map fst df"

text \<open>
  The documented invariant of a loaded table: the dates ascend. A pandas label slice is a
  pair of binary searches only on such an index, so the results below about the clipped
  table are stated for frames with this property.
\<close>

definition monotonic_increasing :: "frame \<Rightarrow> bool" where
  "monotonic_increasing df = sorted (index df)"

section \<open>pandas operations used by \<^verbatim>\<open>ClipData\<close>\<close>

text \<open>\<^verbatim>\<open>DataDF["Discharge"].isna().sum()\<close>\<close>

definition isna_sum :: "frame \<Rightarrow> nat" where
  "isna_sum df = length (filter (\<lambda>r. Discharge (snd r) = None) df)"

text \<open>\<^verbatim>\<open>DataDF.index < startDate\<close> and \<^verbatim>\<open>DataDF.index > endDate\<close>: boolean arrays.\<close>

definition index_lt :: "frame \<Rightarrow> date \<Rightarrow> bool list" where
  "index_lt df d = map (\<lambda>i. i < d) (index df)"

definition index_gt :: "frame \<Rightarrow> date \<Rightarrow> bool list" where
  "index_gt df d = map (\<lambda>i. d < i) (index df)"

text \<open>\<^verbatim>\<open>.sum()\<close> of a boolean array: the number of \<^verbatim>\<open>True\<close> entries.\<close>

definition mask_sum :: "bool list \<Rightarrow> nat" where
  "mask_sum bs = length (filter (\<lambda>b. b) bs)"

text \<open>
  \<^verbatim>\<open>searchsorted(v, side='left')\<close> is the first position whose label is not below \<open>v\<close>,
  \<^verbatim>\<open>searchsorted(v, side='right')\<close> the first position whose label is above \<open>v\<close>.
\<close>

definition searchsorted_left :: "date list \<Rightarrow> date \<Rightarrow> nat" where
  "searchsorted_left idx v = length (takeWhile (\<lambda>i. i < v) idx)"

definition searchsorted_right :: "date list \<Rightarrow> date \<Rightarrow> nat" where
  "searchsorted_right idx v = length (takeWhile (\<lambda>i. i \<le> v) idx)"

text \<open>
  \<^verbatim>\<open>DataDF[startDate:endDate]\<close>: the label slice, both ends included. pandas turns the
  labels into positions \<open>lo\<close> and \<open>hi\<close> and returns the rows at positions \<open>lo..<hi\<close>
  (none when \<open>hi \<le> lo\<close>).
\<close>

definition label_slice :: "frame \<Rightarrow> date \<Rightarrow> date \<Rightarrow> frame" where
  "label_slice df startDate endDate =
     (let lo = searchsorted_left (index df) startDate;
          hi = searchsorted_right (index df) endDate
      in take (hi - lo) (drop lo df))"

section \<open>\<^verbatim>\<open>ClipData\<close>\<close>

definition ClipData :: "frame \<Rightarrow> date \<Rightarrow> date \<Rightarrow> frame \<times> nat" where
  "ClipData DataDF startDate endDate =
     (let MissingValues = isna_sum DataDF;
          b = index_lt DataDF startDate;
          a = index_gt DataDF endDate;
          DataDF' = label_slice DataDF startDate endDate;
          MissingValues' = MissingValues + mask_sum b + mask_sum a
      in (DataDF', MissingValues'))"

text \<open>The same rows described by a predicate: the dates in the closed range.\<close>

definition in_range :: "date \<Rightarrow> date \<Rightarrow> date \<times> row \<Rightarrow> bool" where
  "in_range startDate endDate r = (startDate \<le> fst r \<and> fst r \<le> endDate)"

definition rows_before :: "frame \<Rightarrow> date \<Rightarrow> nat" where
  "rows_before df d = length (filter (\<lambda>r. fst r < d) df)"

definition rows_after :: "frame \<Rightarrow> date \<Rightarrow> nat" where
  "rows_after df d = length (filter (\<lambda>r. d < fst r) df)"

definition rows_excluded :: "frame \<Rightarrow> date \<Rightarrow> date \<Rightarrow> nat" where
  "rows_excluded df startDate endDate =
     length (filter (\<lambda>r. fst r < startDate \<or> endDate < fst r) df)"

text \<open>An observation row of a station file, for the worked examples.\<close>

definition obs :: "cell \<Rightarrow> row" where
  "obs q = \<lparr>agency_cd = ''USGS'', site_no = ''03335000'', Discharge = q, Quality = ''A''\<rparr>"

definition january :: frame where
  "january = [((2000, 1, 1), obs (Some 3)), ((2000, 1, 2), obs None),
              ((2000, 1, 3), obs (Some 5)), ((2000, 1, 4), obs (Some 5))]"

section \<open>\<^verbatim>\<open>ClipData\<close> on an object store\<close>

text \<open>
  To say what \<^verbatim>\<open>ClipData\<close> does to the table it is given, tables are objects in a store
  and a variable holds a reference. Reading goes through the reference; the only
  allocation is the slice \<^verbatim>\<open>DataDF[startDate:endDate]\<close>, a new DataFrame to which the
  local name \<^verbatim>\<open>DataDF\<close> is rebound. No statement of the function assigns into a table.
\<close>

type_synonym ref = nat

type_synonym heap = "frame list"

definition alloc :: "heap \<Rightarrow> frame \<Rightarrow> heap \<times> ref" where
  "alloc h df = (h @ [df], length h)"

definition ClipData_obj :: "heap \<Rightarrow> ref \<Rightarrow> date \<Rightarrow> date \<Rightarrow> heap \<times> ref \<times> nat" where
  "ClipData_obj h DataDF startDate endDate =
     (let MissingValues = isna_sum (h ! DataDF);
          b = index_lt (h ! DataDF) startDate;
          a = index_gt (h ! DataDF) endDate;
          (h', DataDF') = alloc h (label_slice (h ! DataDF) startDate endDate);
          MissingValues' = MissingValues + mask_sum b + mask_sum a
      in (h', DataDF', MissingValues'))"

section \<open>Scalars, series and the pandas reductions\<close>

text \<open>The exception that Python raises when an integer is divided by zero.\<close>

datatype py_error = ZeroDivisionError

text \<open>
  A scalar result: a Python or numpy float. Besides numbers and NaN it can be infinite,
  since numpy returns an infinity for a non-zero number divided by zero (and NaN for
  zero divided by zero) where Python raises.
\<close>

datatype float64 = Finite real | NaN | PosInf | NegInf

text \<open>A pandas Series of \<^verbatim>\<open>float64\<close>, by position.\<close>

type_synonym series = "cell list"

text \<open>The reductions of pandas skip NaN (\<^verbatim>\<open>skipna=True\<close>): they work on the valid values.\<close>

fun valid :: "series \<Rightarrow> real list" where
  "valid [] = []"
| "valid (None # S) = valid S"
| "valid (Some x # S) = x # valid S"

text \<open>The mean of the valid values, as a real number; the mean of no valid value is NaN.
  It is the mean of a window of \<^verbatim>\<open>rolling(window=7).mean()\<close> and of a group of
  \<^verbatim>\<open>groupby(...).mean()\<close>, about which only order and grouping are stated.\<close>

definition series_mean :: "series \<Rightarrow> cell" where
  "series_mean S =
     (if valid S = [] then None else Some (sum_list (valid S) / real (length (valid S))))"

text \<open>\<^verbatim>\<open>Qvalues.index\<close> and \<^verbatim>\<open>index[sel]\<close>, the labels at the positions where the boolean
  array is true. The labels themselves do not matter to the metrics, only how many are
  selected, so the index is taken to be the positions.\<close>

definition series_index :: "series \<Rightarrow> nat list" where
  "series_index S = [0..<length S]"

definition boolean_index :: "'a list \<Rightarrow> bool list \<Rightarrow> 'a list" where
  "boolean_index xs sel = map fst (filter snd (zip xs sel))"

text \<open>
  \<^verbatim>\<open>Series.rolling(window=7).mean()\<close>: the entry at position \<open>i\<close> is the mean of the
  up to \<open>window\<close> values ending at \<open>i\<close>, and NaN unless \<open>min_periods\<close> of them are valid;
  \<open>min_periods\<close> defaults to the size of the window.
\<close>

definition window_mean :: "nat \<Rightarrow> series \<Rightarrow> cell" where
  "window_mean min_periods W =
     (if length (valid W) < min_periods then None
      else Some (sum_list (valid W) / real (length (valid W))))"

definition rolling_mean :: "nat \<Rightarrow> series \<Rightarrow> series" where
  "rolling_mean window S =
     map (\<lambda>i. window_mean window (drop (Suc i - window) (take (Suc i) S))) [0..<length S]"

text \<open>\<^verbatim>\<open>Series.min()\<close> and \<^verbatim>\<open>Series.max()\<close>, which \<^verbatim>\<open>np.min\<close> of a Series calls.\<close>

definition series_min :: "series \<Rightarrow> cell" where
  "series_min S = (if valid S = [] then None else Some (Min (set (valid S))))"

definition series_max :: "series \<Rightarrow> cell" where
  "series_max S = (if valid S = [] then None else Some (Max (set (valid S))))"

fun of_cell :: "cell \<Rightarrow> float64" where
  "of_cell None = NaN"
| "of_cell (Some x) = Finite x"

definition Calc7Q :: "series \<Rightarrow> float64" where
  "Calc7Q Qvalues =
     (let a = rolling_mean 7 Qvalues;
          val7Q = of_cell (series_min a)
      in val7Q)"

section \<open>Notions used to state the claims\<close>

text \<open>The comparison \<open>\<le>\<close> of floats: false when either side is NaN.\<close>

fun f_le :: "float64 \<Rightarrow> float64 \<Rightarrow> bool" where
  "f_le NaN _ = False"
| "f_le _ NaN = False"
| "f_le NegInf _ = True"
| "f_le _ PosInf = True"
| "f_le (Finite x) (Finite y) = (x \<le> y)"
| "f_le _ _ = False"

definition arithmetic_mean :: "real list \<Rightarrow> real" where
  "arithmetic_mean xs = sum_list xs / real (length xs)"


definition is_constant :: "real list \<Rightarrow> bool" where
  "is_constant xs = (\<forall>x \<in> set xs. \<forall>y \<in> set xs. x = y)"






section \<open>Binary64 arithmetic\<close>

text \<open>
  The arithmetic of numpy and of Python floats is IEEE 754 binary64 with rounding to
  nearest, ties to even. \<open>round64 x\<close> is the float nearest to the real \<open>x\<close>: the
  floats of the binade of \<open>x\<close> are the multiples of \<open>pow2 (quantum x)\<close>, 53 bits apart
  for a normal number and multiples of \<open>pow2 (- 1074)\<close> below the least normal number
  \<open>pow2 (- 1022)\<close>; a result that rounds to \<open>pow2 1024\<close> or beyond is infinite.
\<close>

definition round_half_even :: "real \<Rightarrow> int" where
  "round_half_even r =
     (let f = \<lfloor>r\<rfloor>; d = r - of_int f
      in if d < 1 / 2 then f else if 1 / 2 < d then f + 1 else if even f then f else f + 1)"

definition pow2 :: "int \<Rightarrow> real" where
  "pow2 e = (if 0 \<le> e then 2 ^ nat e else 1 / 2 ^ nat (- e))"

definition binade :: "real \<Rightarrow> int" where
  "binade x = \<lfloor>log 2 \<bar>x\<bar>\<rfloor>"

definition quantum :: "real \<Rightarrow> int" where
  "quantum x = max (binade x) (- 1022) - 52"

definition round64 :: "real \<Rightarrow> float64" where
  "round64 x =
     (if x = 0 then Finite 0
      else let y = of_int (round_half_even (x / pow2 (quantum x))) * pow2 (quantum x)
           in if 2 ^ 1024 \<le> \<bar>y\<bar> then (if 0 < x then PosInf else NegInf) else Finite y)"

text \<open>
  The operations on floats: the exact result, rounded. NaN is absorbing; the sum of
  opposite infinities and the quotient of two zeros or of two infinities are NaN; a
  non-zero number divided by zero is an infinity (numpy warns and does not raise).
\<close>

definition f_neg :: "float64 \<Rightarrow> float64" where
  "f_neg a = (case a of Finite x \<Rightarrow> Finite (- x) | NaN \<Rightarrow> NaN | PosInf \<Rightarrow> NegInf | NegInf \<Rightarrow> PosInf)"

definition f_abs :: "float64 \<Rightarrow> float64" where
  "f_abs a = (case a of Finite x \<Rightarrow> Finite \<bar>x\<bar> | NaN \<Rightarrow> NaN | PosInf \<Rightarrow> PosInf | NegInf \<Rightarrow> PosInf)"

fun f_add :: "float64 \<Rightarrow> float64 \<Rightarrow> float64" where
  "f_add NaN _ = NaN"
| "f_add _ NaN = NaN"
| "f_add (Finite x) (Finite y) = round64 (x + y)"
| "f_add PosInf NegInf = NaN"
| "f_add NegInf PosInf = NaN"
| "f_add PosInf _ = PosInf"
| "f_add _ PosInf = PosInf"
| "f_add NegInf _ = NegInf"
| "f_add _ NegInf = NegInf"

definition f_sub :: "float64 \<Rightarrow> float64 \<Rightarrow> float64" where
  "f_sub a b = f_add a (f_neg b)"

fun f_mul :: "float64 \<Rightarrow> float64 \<Rightarrow> float64" where
  "f_mul NaN _ = NaN"
| "f_mul _ NaN = NaN"
| "f_mul (Finite x) (Finite y) = round64 (x * y)"
| "f_mul (Finite x) PosInf = (if x = 0 then NaN else if 0 < x then PosInf else NegInf)"
| "f_mul (Finite x) NegInf = (if x = 0 then NaN else if 0 < x then NegInf else PosInf)"
| "f_mul PosInf (Finite y) = (if y = 0 then NaN else if 0 < y then PosInf else NegInf)"
| "f_mul NegInf (Finite y) = (if y = 0 then NaN else if 0 < y then NegInf else PosInf)"
| "f_mul PosInf PosInf = PosInf"
| "f_mul PosInf NegInf = NegInf"
| "f_mul NegInf PosInf = NegInf"
| "f_mul NegInf NegInf = PosInf"

fun f_div :: "float64 \<Rightarrow> float64 \<Rightarrow> float64" where
  "f_div NaN _ = NaN"
| "f_div _ NaN = NaN"
| "f_div (Finite x) (Finite y) =
     (if y = 0 then (if x = 0 then NaN else if 0 < x then PosInf else NegInf)
      else round64 (x / y))"
| "f_div (Finite x) PosInf = Finite 0"
| "f_div (Finite x) NegInf = Finite 0"
| "f_div PosInf (Finite y) = (if 0 \<le> y then PosInf else NegInf)"
| "f_div NegInf (Finite y) = (if 0 \<le> y then NegInf else PosInf)"
| "f_div _ _ = NaN"

text \<open>The comparison \<open>>\<close> of floats: false when either side is NaN.\<close>

definition f_gt :: "float64 \<Rightarrow> float64 \<Rightarrow> bool" where
  "f_gt a b = (f_le b a \<and> \<not> f_le a b)"

section \<open>\<^verbatim>\<open>CalcTqmean\<close>, \<^verbatim>\<open>CalcRBindex\<close> and \<^verbatim>\<open>CalcExceed3TimesMedian\<close>\<close>

text \<open>
  \<^verbatim>\<open>Series.sum()\<close>: the NaN entries are skipped and the others added in binary64,
  from left to right starting from 0. That is the order in which numpy adds fewer than
  eight numbers; for a longer array the order of the additions, and with it the last bits
  of the sum, depends on the build of numpy, and the model keeps the order left to right.
\<close>

definition np_sum :: "float64 list \<Rightarrow> float64" where
  "np_sum S = foldl f_add (Finite 0) (filter (\<lambda>x. x \<noteq> NaN) S)"

text \<open>\<^verbatim>\<open>Series.mean()\<close>: the sum of the valid values divided by their number, both steps
  rounded; NaN when there is no valid value.\<close>

definition series_mean64 :: "series \<Rightarrow> float64" where
  "series_mean64 S =
     (let v = map Finite (valid S)
      in if v = [] then NaN else f_div (np_sum v) (Finite (real (length v))))"

text \<open>\<^verbatim>\<open>Qvalues > c\<close>: the boolean Series of the comparison, entry by entry.\<close>

definition gt_mask :: "series \<Rightarrow> float64 \<Rightarrow> bool list" where
  "gt_mask S c = map (\<lambda>x. f_gt (of_cell x) c) S"

text \<open>
  \<^verbatim>\<open>len(a)/len(Qvalues)\<close> divides two Python integers: the result is the quotient
  rounded to a float, and a zero divisor raises \<^verbatim>\<open>ZeroDivisionError\<close>.
\<close>

definition py_truediv :: "nat \<Rightarrow> nat \<Rightarrow> py_error + float64" where
  "py_truediv n d = (if d = 0 then Inl ZeroDivisionError else Inr (round64 (real n / real d)))"

definition CalcTqmean :: "series \<Rightarrow> py_error + float64" where
  "CalcTqmean Qvalues =
     (let a = boolean_index (series_index Qvalues) (gt_mask Qvalues (series_mean64 Qvalues));
          Tqmean = py_truediv (length a) (length Qvalues)
      in Tqmean)"

text \<open>
  \<^verbatim>\<open>Series.diff()\<close>: the first entry is NaN, every other entry is the value minus the
  value before it. \<^verbatim>\<open>Series.abs()\<close> is taken entry by entry, and the two sums are
  divided by numpy, which yields NaN or an infinity for a zero divisor.
\<close>

fun diff_from :: "float64 \<Rightarrow> float64 list \<Rightarrow> float64 list" where
  "diff_from prev [] = []"
| "diff_from prev (x # S) = f_sub x prev # diff_from x S"

definition series_diff :: "float64 list \<Rightarrow> float64 list" where
  "series_diff S = (case S of [] \<Rightarrow> [] | x # S' \<Rightarrow> NaN # diff_from x S')"

definition series_abs :: "float64 list \<Rightarrow> float64 list" where
  "series_abs S = map f_abs S"

definition CalcRBindex :: "series \<Rightarrow> float64" where
  "CalcRBindex Qvalues =
     (let a = series_diff (map of_cell Qvalues);
          RBindex = f_div (np_sum (series_abs a)) (np_sum (map of_cell Qvalues))
      in RBindex)"

text \<open>
  \<^verbatim>\<open>Series.median()\<close>: the middle of the sorted valid values, the mean of the two
  middle values when their number is even, NaN when there is none. \<^verbatim>\<open>3*a\<close> is a
  binary64 product.
\<close>

definition series_median64 :: "series \<Rightarrow> float64" where
  "series_median64 S =
     (let v = sort (valid S); n = length v
      in if n = 0 then NaN
         else if odd n then Finite (v ! (n div 2))
         else f_div (f_add (Finite (v ! (n div 2 - 1))) (Finite (v ! (n div 2)))) (Finite 2))"

definition CalcExceed3TimesMedian :: "series \<Rightarrow> nat" where
  "CalcExceed3TimesMedian Qvalues =
     (let a = series_median64 Qvalues;
          b = boolean_index (series_index Qvalues) (gt_mask Qvalues (f_mul (Finite 3) a));
          median3x = length b
      in median3x)"

section \<open>Notions used to state the claims about the rounded metrics\<close>



definition is_float64 :: "real \<Rightarrow> bool" where
  "is_float64 x = (round64 x = Finite x)"

definition path_sum :: "real list \<Rightarrow> float64" where
  "path_sum xs = np_sum (series_abs (series_diff (map Finite xs)))"

definition value_sum :: "real list \<Rightarrow> float64" where
  "value_sum xs = np_sum (map Finite xs)"

text \<open>A float that is zero, at least the least positive float, or \<open>PosInf\<close>: a sum of
  absolute values.\<close>

definition grid_nonneg :: "float64 \<Rightarrow> bool" where
  "grid_nonneg a = (a = PosInf \<or> (\<exists>y. a = Finite y \<and> (y = 0 \<or> pow2 (- 1074) \<le> y)))"






section \<open>\<^verbatim>\<open>GetAnnualStatistics\<close>: resampling to water years\<close>

text \<open>\<^verbatim>\<open>DataDF['Discharge']\<close>: the discharge column with the date index.\<close>

type_synonym dseries = "(date \<times> cell) list"

definition column_Discharge :: "frame \<Rightarrow> dseries" where
  "column_Discharge df = map (\<lambda>r. (fst r, Discharge (snd r))) df"

text \<open>A date of the calendar, as far as the bucketing needs it.\<close>

definition valid_date :: "date \<Rightarrow> bool" where
  "valid_date d = (1 \<le> month d \<and> month d \<le> 12 \<and> 1 \<le> day d \<and> day d \<le> 31)"

text \<open>
  \<^verbatim>\<open>resample('AS-OCT')\<close> cuts the time axis into years that start on October 1. A bin is
  closed on the left and labelled by its left edge (the defaults of pandas for this
  frequency): \<open>AS_OCT_label d\<close> is the October 1 on or before \<open>d\<close>.
\<close>

definition AS_OCT_label :: "date \<Rightarrow> date" where
  "AS_OCT_label d = (if 10 \<le> month d then (year d, 10, 1) else (year d - 1, 10, 1))"

definition next_AS_OCT :: "date \<Rightarrow> date" where
  "next_AS_OCT l = (year l + 1, 10, 1)"

text \<open>
  The bins run from the one of the earliest date to the one of the latest date, every year
  in between included, whether or not it has an observation.
\<close>

definition AS_OCT_labels :: "dseries \<Rightarrow> date list" where
  "AS_OCT_labels S =
     (if S = [] then []
      else map (\<lambda>y. (y, 10, 1))
             [year (AS_OCT_label (Min (set (map fst S)))) ..
              year (AS_OCT_label (Max (set (map fst S))))])"

text \<open>Each bin holds the observations dated from its label up to, not including, the next label.\<close>

definition resample_AS_OCT :: "dseries \<Rightarrow> (date \<times> series) list" where
  "resample_AS_OCT S =
     map (\<lambda>l. (l, map snd (filter (\<lambda>r. l \<le> fst r \<and> fst r < next_AS_OCT l) S)))
       (AS_OCT_labels S)"

text \<open>The observations of a series whose water year has the label \<open>l\<close>.\<close>

definition bucket_rows :: "dseries \<Rightarrow> date \<Rightarrow> series" where
  "bucket_rows S l = map snd (filter (\<lambda>r. AS_OCT_label (fst r) = l) S)"

text \<open>Two observations on either side of an October 1.\<close>

definition autumn :: frame where
  "autumn = [((1999, 9, 30), obs (Some 5)), ((1999, 10, 1), obs (Some 7))]"

text \<open>
  The reductions of the resampler whose last bits depend on the algorithm of the library
  (the group mean and standard deviation of pandas, \<^verbatim>\<open>skew\<close> of scipy): each is a function
  of the observations of one bin.
\<close>

record library =
  lib_mean :: "series \<Rightarrow> float64"
  lib_std :: "series \<Rightarrow> float64"
  lib_skew :: "series \<Rightarrow> float64"

text \<open>One row of \<^verbatim>\<open>WYDataDF\<close>, with the nine columns of the DataFrame.\<close>

record wy_row =
  Mean_Flow :: float64
  Peak_Flow :: float64
  Median_Flow :: float64
  Coeff_Var :: float64
  Skew :: float64
  Tqmean :: float64
  RB_Index :: float64
  SevenQ :: float64
  ThreeXMedian :: nat

text \<open>
  The statistics of one bin \<open>Q\<close>, in the order of the source. \<^verbatim>\<open>apply\<close> calls the
  metric functions on the observations of the bin; an exception raised by one of them,
  which can only be the \<^verbatim>\<open>ZeroDivisionError\<close> of \<^verbatim>\<open>CalcTqmean\<close>, ends the call.
\<close>

definition annual_row :: "library \<Rightarrow> series \<Rightarrow> py_error + wy_row" where
  "annual_row lib Q =
     (let mean = lib_mean lib Q;
          peak = of_cell (series_max Q);
          med = series_median64 Q;
          sd = lib_std lib Q;
          cov = f_mul (f_div sd mean) (Finite 100);
          skw = lib_skew lib Q
      in case CalcTqmean Q of
           Inl e \<Rightarrow> Inl e
         | Inr tq \<Rightarrow>
             Inr \<lparr>Mean_Flow = mean, Peak_Flow = peak, Median_Flow = med, Coeff_Var = cov,
                  Skew = skw, Tqmean = tq, RB_Index = CalcRBindex Q, SevenQ = Calc7Q Q,
                  ThreeXMedian = CalcExceed3TimesMedian Q\<rparr>)"

text \<open>The rows in the order of the bins, or the first exception.\<close>

fun collect_rows :: "(date \<times> (py_error + wy_row)) list \<Rightarrow> py_error + (date \<times> wy_row) list" where
  "collect_rows [] = Inr []"
| "collect_rows ((l, Inl e) # rs) = Inl e"
| "collect_rows ((l, Inr r) # rs) =
     (case collect_rows rs of Inl e \<Rightarrow> Inl e | Inr rows \<Rightarrow> Inr ((l, r) # rows))"

definition GetAnnualStatistics :: "library \<Rightarrow> frame \<Rightarrow> py_error + (date \<times> wy_row) list" where
  "GetAnnualStatistics lib DataDF =
     collect_rows (map (\<lambda>b. (fst b, annual_row lib (snd b)))
       (resample_AS_OCT (column_Discharge DataDF)))"

text \<open>
  The library on bins of one observation, as in \<open>autumn\<close>: the mean is the rounded
  sum divided by 1; the sample standard deviation and the skewness are NaN.
\<close>

definition no_moments :: library where
  "no_moments = \<lparr>lib_mean = series_mean64, lib_std = (\<lambda>Q. NaN), lib_skew = (\<lambda>Q. NaN)\<rparr>"

section \<open>\<^verbatim>\<open>GetMonthlyAverages\<close>\<close>

text \<open>
  A table of metrics indexed by date, such as \<^verbatim>\<open>MoDataDF\<close>: each row holds the cells of
  its columns, in the order of the columns.
\<close>

type_synonym table = "(date \<times> cell list) list"

definition columns :: "cell list list \<Rightarrow> series list" where
  "columns rows =
     (case rows of [] \<Rightarrow> [] | r # _ \<Rightarrow> map (\<lambda>j. map (\<lambda>c. c ! j) rows) [0..<length r])"

text \<open>\<^verbatim>\<open>MoDataDF.index.month\<close>, and the rows of one group.\<close>

definition index_month :: "table \<Rightarrow> nat list" where
  "index_month df = map (\<lambda>r. month (fst r)) df"

definition group_rows :: "table \<Rightarrow> nat \<Rightarrow> cell list list" where
  "group_rows df m = map snd (filter (\<lambda>r. month (fst r) = m) df)"

text \<open>
  \<^verbatim>\<open>groupby(by=[MoDataDF.index.month]).mean()\<close>: one row for each key that occurs, the
  keys ascending, holding the mean of every column over the rows of the group.
\<close>

definition GetMonthlyAverages :: "table \<Rightarrow> (nat \<times> cell list) list" where
  "GetMonthlyAverages MoDataDF =
     (let MonthlyAverages =
            map (\<lambda>m. (m, map series_mean (columns (group_rows MoDataDF m))))
              (sort (remdups (index_month MoDataDF)))
      in MonthlyAverages)"

text \<open>The calendar months that occur in the index, and an index whose months are 1 to 12.\<close>

definition months_present :: "table \<Rightarrow> nat set" where
  "months_present df = set (index_month df)"

definition calendar_months :: "table \<Rightarrow> bool" where
  "calendar_months df = (months_present df \<subseteq> {1..12})"

definition two_winters :: table where
  "two_winters = [((2000, 1, 1), [Some 1, Some 2]), ((2000, 2, 1), [Some 3, None]),
                  ((2001, 1, 1), [Some 2, Some 6])]"

section \<open>Properties of the label slice\<close>

lemma mask_sum_map: "mask_sum (map P xs) = length (filter P xs)"
  by (induction xs) (simp_all add: mask_sum_def)

lemma mask_sum_index_lt: "mask_sum (index_lt df d) = rows_before df d"
  by (simp add: index_lt_def index_def rows_before_def mask_sum_map filter_map o_def)

lemma mask_sum_index_gt: "mask_sum (index_gt df d) = rows_after df d"
  by (simp add: index_gt_def index_def rows_after_def mask_sum_map filter_map o_def)

lemma sorted_filter_above_empty:
  fixes df :: "('k::linorder \<times> 'v) list"
  assumes "sorted (map fst (r # df))" and "e < fst r"
  shows "filter (\<lambda>x. s \<le> fst x \<and> fst x \<le> e) (r # df) = []"
proof -
  have "\<forall>x \<in> set (r # df). e < fst x"
    using assms by auto
  then show ?thesis
    by (auto simp: filter_empty_conv)
qed

lemma sorted_takeWhile_le_filter:
  fixes df :: "('k::linorder \<times> 'v) list"
  assumes "sorted (map fst df)" and "\<forall>x \<in> set df. s \<le> fst x"
  shows "take (length (takeWhile (\<lambda>i. i \<le> e) (map fst df))) df
         = filter (\<lambda>x. s \<le> fst x \<and> fst x \<le> e) df"
  using assms
proof (induction df)
  case Nil
  then show ?case by simp
next
  case (Cons r df)
  show ?case
  proof (cases "fst r \<le> e")
    case True
    with Cons show ?thesis by simp
  next
    case False
    then have "e < fst r" by simp
    from sorted_filter_above_empty [OF Cons.prems(1) this] False
    show ?thesis by simp
  qed
qed

lemma takeWhile_lt_none:
  fixes df :: "('k::linorder \<times> 'v) list"
  assumes "\<forall>x \<in> set df. s \<le> fst x"
  shows "takeWhile (\<lambda>i. i < s) (map fst df) = []"
  using assms by (cases df) auto

lemma slice_positions_filter:
  fixes df :: "('k::linorder \<times> 'v) list"
  assumes "sorted (map fst df)"
  shows "take (length (takeWhile (\<lambda>i. i \<le> e) (map fst df))
                 - length (takeWhile (\<lambda>i. i < s) (map fst df)))
              (drop (length (takeWhile (\<lambda>i. i < s) (map fst df))) df)
         = filter (\<lambda>x. s \<le> fst x \<and> fst x \<le> e) df"
  using assms
proof (induction df)
  case Nil
  then show ?case by simp
next
  case (Cons r df)
  then have sdf: "sorted (map fst df)" and ge: "\<forall>x \<in> set df. fst r \<le> fst x"
    by auto
  show ?case
  proof (cases "fst r < s")
    case below: True
    show ?thesis
    proof (cases "fst r \<le> e")
      case True
      with below Cons.IH [OF sdf] show ?thesis by simp
    next
      case False
      then have "e < fst r" by simp
      from sorted_filter_above_empty [OF Cons.prems this] False below
      show ?thesis by simp
    qed
  next
    case False
    then have "\<forall>x \<in> set (r # df). s \<le> fst x"
      using ge by auto
    from sorted_takeWhile_le_filter [OF Cons.prems this] takeWhile_lt_none [OF this]
    show ?thesis by simp
  qed
qed

lemma label_slice_filter:
  "monotonic_increasing df \<Longrightarrow> label_slice df s e = filter (in_range s e) df"
  using slice_positions_filter [of df e s]
  by (simp add: label_slice_def searchsorted_left_def searchsorted_right_def
      monotonic_increasing_def index_def in_range_def [abs_def] Let_def)

lemma excluded_complement:
  "rows_excluded df s e + length (filter (in_range s e) df) = length df"
  by (induction df) (auto simp: rows_excluded_def in_range_def)

lemma reversed_range_empty: "e < s \<Longrightarrow> filter (in_range s e) df = []"
  by (auto simp: filter_empty_conv in_range_def)

lemma ClipData_fst: "monotonic_increasing df \<Longrightarrow> fst (ClipData df s e) = filter (in_range s e) df"
  by (simp add: ClipData_def Let_def label_slice_filter)

lemma ClipData_snd: "snd (ClipData df s e) = isna_sum df + rows_before df s + rows_after df e"
  by (simp add: ClipData_def Let_def mask_sum_index_lt mask_sum_index_gt)

lemma isna_sum_filter_le: "isna_sum (filter P df) \<le> isna_sum df"
  by (induction df) (simp_all add: isna_sum_def)

lemma rows_before_in_range: "rows_before (filter (in_range s e) df) s = 0"
  by (auto simp: rows_before_def in_range_def filter_empty_conv)

lemma rows_after_in_range: "rows_after (filter (in_range s e) df) e = 0"
  by (auto simp: rows_after_def in_range_def filter_empty_conv)

lemma monotonic_increasing_filter:
  "monotonic_increasing df \<Longrightarrow> monotonic_increasing (filter P df)"
  by (simp add: monotonic_increasing_def index_def sorted_filter)

lemma rows_excluded_none: "rows_excluded df s e = 0 \<longleftrightarrow> filter (in_range s e) df = df"
  by (induction df)
     (auto simp: rows_excluded_def in_range_def filter_id_conv filter_empty_conv
           dest: filter_eq_ConsD)

lemma rows_none_outside:
  "rows_before df s + rows_after df e = 0 \<longleftrightarrow> rows_excluded df s e = 0"
  by (auto simp: rows_before_def rows_after_def rows_excluded_def filter_empty_conv)

lemma ClipData_obj_eq:
  "ClipData_obj h r s e =
     (h @ [fst (ClipData (h ! r) s e)], length h, snd (ClipData (h ! r) s e))"
  by (simp add: ClipData_obj_def ClipData_def alloc_def Let_def)

lemma rows_before_after_disjoint:
  "s \<le> e \<Longrightarrow> rows_before df s + rows_after df e = rows_excluded df s e"
  by (induction df) (auto simp: rows_before_def rows_after_def rows_excluded_def)

text \<open>
  With the start not after the end the two masks of \<^verbatim>\<open>ClipData\<close> are disjoint: the count
  is the number of missing values plus the number of rows clipped.
\<close>

lemma ClipData_ordered_range:
  assumes "monotonic_increasing DataDF" and "startDate \<le> endDate"
  shows "ClipData DataDF startDate endDate
         = (filter (in_range startDate endDate) DataDF,
            isna_sum DataDF + rows_excluded DataDF startDate endDate)"
  using ClipData_fst [OF assms(1), of startDate endDate]
        ClipData_snd [of DataDF startDate endDate]
        rows_before_after_disjoint [OF assms(2), of DataDF]
  by (simp add: prod_eq_iff)

section \<open>Properties of the metric functions\<close>

lemma valid_map_Some: "valid (map Some xs) = xs"
  by (induction xs) simp_all


lemma series_mean_Some:
  "xs \<noteq> [] \<Longrightarrow> series_mean (map Some xs) = Some (arithmetic_mean xs)"
  by (simp add: series_mean_def valid_map_Some arithmetic_mean_def)



















section \<open>Properties of the aggregations\<close>

lemma AS_OCT_label_mono: "d \<le> d' \<Longrightarrow> AS_OCT_label d \<le> AS_OCT_label d'"
  by (cases d; cases d') (auto simp: AS_OCT_label_def year_def month_def)

lemma in_bin_iff:
  assumes "valid_date d"
  shows "(y, 10, 1) \<le> d \<and> d < next_AS_OCT (y, 10, 1) \<longleftrightarrow> AS_OCT_label d = (y, 10, 1)"
  using assms
  by (cases d) (auto simp: AS_OCT_label_def next_AS_OCT_def valid_date_def year_def month_def day_def)

lemma year_label_range:
  assumes "r \<in> set S"
  shows "year (AS_OCT_label (Min (set (map fst S)))) \<le> year (AS_OCT_label (fst r))
       \<and> year (AS_OCT_label (fst r)) \<le> year (AS_OCT_label (Max (set (map fst S))))"
proof -
  have "Min (set (map fst S)) \<le> fst r" and "fst r \<le> Max (set (map fst S))"
    using assms by simp_all
  from AS_OCT_label_mono [OF this(1)] AS_OCT_label_mono [OF this(2)]
  show ?thesis
    by (auto simp: year_def less_eq_prod_def)
qed

lemma label_form: "AS_OCT_label d = (year (AS_OCT_label d), 10, 1)"
  by (simp add: AS_OCT_label_def year_def)

lemma label_in_labels:
  assumes "r \<in> set S"
  shows "AS_OCT_label (fst r) \<in> set (AS_OCT_labels S)"
proof -
  from assms have ne: "S \<noteq> []" by auto
  from year_label_range [OF assms] label_form [of "fst r"] ne show ?thesis
    by (auto simp: AS_OCT_labels_def image_iff)
qed

lemma resample_labels: "map fst (resample_AS_OCT S) = AS_OCT_labels S"
  by (simp add: resample_AS_OCT_def o_def)

lemma labels_october: "l \<in> set (AS_OCT_labels S) \<Longrightarrow> month l = 10 \<and> day l = 1"
  by (auto simp: AS_OCT_labels_def month_def day_def split: if_splits)

lemma resample_bucket:
  assumes "\<forall>r \<in> set S. valid_date (fst r)"
  shows "resample_AS_OCT S = map (\<lambda>l. (l, bucket_rows S l)) (AS_OCT_labels S)"
proof -
  have "map snd (filter (\<lambda>r. l \<le> fst r \<and> fst r < next_AS_OCT l) S) = bucket_rows S l"
    if "l \<in> set (AS_OCT_labels S)" for l
  proof -
    from that obtain y where l: "l = (y, 10, 1)"
      by (auto simp: AS_OCT_labels_def split: if_splits)
    have "(l \<le> fst r \<and> fst r < next_AS_OCT l) = (AS_OCT_label (fst r) = l)"
      if "r \<in> set S" for r
      using assms that in_bin_iff [of "fst r" y] unfolding l by blast
    then have "filter (\<lambda>r. l \<le> fst r \<and> fst r < next_AS_OCT l) S
             = filter (\<lambda>r. AS_OCT_label (fst r) = l) S"
      by (intro filter_cong) simp_all
    then show ?thesis by (simp add: bucket_rows_def)
  qed
  then show ?thesis
    by (simp add: resample_AS_OCT_def)
qed

lemma labels_ascending: "sorted (AS_OCT_labels S) \<and> distinct (AS_OCT_labels S)"
proof -
  have s: "sorted (map (\<lambda>y. (y, 10 :: nat, 1 :: nat)) [a..b])" for a b :: int
    using sorted_upto [of a b]
    by (simp add: sorted_map less_eq_prod_def sorted_wrt_mono_rel [of _ "(\<le>)"])
  have "inj_on (\<lambda>y. (y, 10 :: nat, 1 :: nat)) A" for A :: "int set"
    by (simp add: inj_on_def)
  then have d: "distinct (map (\<lambda>y. (y, 10 :: nat, 1 :: nat)) [a..b])" for a b :: int
    by (simp add: distinct_map)
  from s d show ?thesis
    by (simp add: AS_OCT_labels_def)
qed

lemma GetMonthlyAverages_keys:
  "map fst (GetMonthlyAverages df) = sorted_list_of_set (months_present df)"
  by (simp add: GetMonthlyAverages_def o_def months_present_def sorted_list_of_set_sort_remdups)

lemma GetMonthlyAverages_length:
  "length (GetMonthlyAverages df) = card (months_present df)"
proof -
  have "length (GetMonthlyAverages df) = length (map fst (GetMonthlyAverages df))"
    by simp
  also have "\<dots> = card (months_present df)"
    by (simp only: GetMonthlyAverages_keys) (simp add: months_present_def)
  finally show ?thesis .
qed

lemma GetMonthlyAverages_rows:
  "GetMonthlyAverages df =
     map (\<lambda>m. (m, map series_mean (columns (group_rows df m))))
       (sorted_list_of_set (months_present df))"
  by (simp add: GetMonthlyAverages_def months_present_def sorted_list_of_set_sort_remdups)

lemma twelve_months:
  assumes "calendar_months df"
  shows "card (months_present df) \<le> 12"
    and "card (months_present df) = 12 \<longleftrightarrow> months_present df = {1..12}"
proof -
  have sub: "months_present df \<subseteq> {1..12}"
    using assms by (simp add: calendar_months_def)
  have c: "card {1..12 :: nat} = 12" by simp
  from card_mono [OF _ sub] c show "card (months_present df) \<le> 12" by simp
  show "card (months_present df) = 12 \<longleftrightarrow> months_present df = {1..12}"
  proof
    assume "card (months_present df) = 12"
    with c have "card (months_present df) = card {1..12 :: nat}" by simp
    with sub show "months_present df = {1..12}"
      by (intro card_subset_eq) simp_all
  next
    assume "months_present df = {1..12}"
    with c show "card (months_present df) = 12" by simp
  qed
qed

section \<open>Properties of binary64 rounding and of the rounded metrics\<close>

lemma pow2_powr: "pow2 e = 2 powr (of_int e)"
  by (simp add: pow2_def powr_int)

lemma pow2_pos [simp]: "0 < pow2 e"
  by (simp add: pow2_powr)

lemma pow2_nonneg [simp]: "0 \<le> pow2 e"
  using pow2_pos [of e] by (simp only: less_imp_le)

lemma pow2_not_le_zero [simp]: "\<not> pow2 e \<le> 0"
  using pow2_pos [of e] by (simp only: not_le)

lemma pow2_add: "pow2 (a + b) = pow2 a * pow2 b"
  by (simp add: pow2_powr powr_add)

lemma pow2_mono: "a \<le> b \<Longrightarrow> pow2 a \<le> pow2 b"
  by (simp add: pow2_powr)

lemma pow2_nat: "0 \<le> e \<Longrightarrow> pow2 e = of_int (2 ^ nat e)"
  by (simp add: pow2_def)

lemma binade_bounds:
  assumes "x \<noteq> 0"
  shows "pow2 (binade x) \<le> \<bar>x\<bar>" and "\<bar>x\<bar> < pow2 (binade x + 1)"
proof -
  have "0 < \<bar>x\<bar>" using assms by simp
  from floor_log_eq_powr_iff [OF this, of 2 "binade x"]
  show "pow2 (binade x) \<le> \<bar>x\<bar>" and "\<bar>x\<bar> < pow2 (binade x + 1)"
    by (simp_all add: binade_def pow2_powr)
qed

lemma binade_eqI:
  assumes "pow2 k \<le> \<bar>x\<bar>" and "\<bar>x\<bar> < pow2 (k + 1)"
  shows "binade x = k"
proof -
  have "0 < \<bar>x\<bar>" using assms(1) pow2_pos [of k] by linarith
  from floor_log_eq_powr_iff [OF this, of 2 k] assms show ?thesis
    by (simp add: binade_def pow2_powr)
qed

lemma round_half_even_of_int [simp]: "round_half_even (of_int n) = n"
  by (simp add: round_half_even_def)

lemma round_half_even_le: "r \<le> of_int n \<Longrightarrow> round_half_even r \<le> n"
proof -
  assume le: "r \<le> of_int n"
  show ?thesis
  proof (cases "r = of_int n")
    case True
    then show ?thesis by simp
  next
    case False
    with le have "r < of_int n" by simp
    then have "\<lfloor>r\<rfloor> < n" by (simp add: floor_less_iff)
    then have "\<lfloor>r\<rfloor> + 1 \<le> n" by simp
    moreover have "round_half_even r \<le> \<lfloor>r\<rfloor> + 1"
      by (simp add: round_half_even_def Let_def)
    ultimately show ?thesis by linarith
  qed
qed

lemma round_half_even_ge: "of_int n \<le> r \<Longrightarrow> n \<le> round_half_even r"
proof -
  assume "of_int n \<le> r"
  then have "n \<le> \<lfloor>r\<rfloor>" by (simp add: le_floor_iff)
  moreover have "\<lfloor>r\<rfloor> \<le> round_half_even r"
    by (simp add: round_half_even_def Let_def)
  ultimately show ?thesis by linarith
qed

lemma quantum_ge: "- 1074 \<le> quantum x"
  by (simp add: quantum_def)

lemma pow2_strict_mono: "a < b \<Longrightarrow> pow2 a < pow2 b"
  by (simp add: pow2_powr)

lemma round64_normal:
  assumes "pow2 k \<le> \<bar>x\<bar>" and "\<bar>x\<bar> < pow2 (k + 1)" and "- 1022 \<le> k" and "k \<le> 1022"
  shows "round64 x = Finite (of_int (round_half_even (x / pow2 (k - 52))) * pow2 (k - 52))"
proof -
  have b: "binade x = k" using assms(1,2) by (rule binade_eqI)
  then have q: "quantum x = k - 52" using assms(3) by (simp add: quantum_def)
  have nz: "x \<noteq> 0" using assms(1) pow2_pos [of k] by auto
  let ?r = "x / pow2 (k - 52)"
  have "53 + (k - 52) = k + 1" by simp
  then have split: "pow2 (k + 1) = pow2 53 * pow2 (k - 52)"
    by (metis pow2_add)
  have "\<bar>?r\<bar> < pow2 53"
    using assms(2) unfolding split by (simp add: pos_divide_less_eq)
  moreover have p53: "pow2 53 = of_int (2 ^ 53)"
    by (simp add: pow2_def)
  ultimately have "?r \<le> of_int (2 ^ 53)" and "of_int (- (2 ^ 53)) \<le> ?r"
    unfolding abs_less_iff of_int_minus by linarith+
  then have "round_half_even ?r \<le> 2 ^ 53" and "- (2 ^ 53) \<le> round_half_even ?r"
    by (auto intro: round_half_even_le round_half_even_ge)
  then have "(of_int (round_half_even ?r) :: real) \<le> of_int (2 ^ 53)"
    and "(of_int (- (2 ^ 53)) :: real) \<le> of_int (round_half_even ?r)"
    by (simp_all only: of_int_le_iff)
  then have "\<bar>of_int (round_half_even ?r) :: real\<bar> \<le> pow2 53"
    unfolding p53 abs_le_iff of_int_minus by (intro conjI) linarith+
  then have "\<bar>of_int (round_half_even ?r) * pow2 (k - 52)\<bar> \<le> pow2 53 * pow2 (k - 52)"
    by (simp add: abs_mult mult_right_mono)
  also have "\<dots> = pow2 (k + 1)" by (simp only: split)
  also have "\<dots> \<le> pow2 1023" using assms(4) by (intro pow2_mono) simp
  also have "\<dots> < 2 ^ 1024" by (simp add: pow2_def)
  finally have "\<not> 2 ^ 1024 \<le> \<bar>of_int (round_half_even ?r) * pow2 (k - 52)\<bar>"
    by simp
  with nz q show ?thesis
    by (simp add: round64_def Let_def)
qed

lemma round64_nonneg:
  assumes "0 \<le> x"
  shows "round64 x = PosInf
       \<or> (\<exists>y. round64 x = Finite y \<and> (y = 0 \<or> pow2 (- 1074) \<le> y))"
proof (cases "x = 0")
  case True
  then show ?thesis by (simp add: round64_def)
next
  case False
  with assms have pos: "0 < x" by simp
  let ?q = "quantum x"
  let ?m = "round_half_even (x / pow2 ?q)"
  have "of_int 0 \<le> x / pow2 ?q" using pos by simp
  then have m: "0 \<le> ?m" by (rule round_half_even_ge)
  show ?thesis
  proof (cases "?m = 0")
    case True
    with False show ?thesis by (simp add: round64_def Let_def)
  next
    case False
    with m have "1 \<le> ?m" by simp
    then have "(1 :: real) \<le> of_int ?m" by simp
    then have "1 * pow2 ?q \<le> of_int ?m * pow2 ?q"
      by (intro mult_right_mono) simp_all
    then have "pow2 ?q \<le> of_int ?m * pow2 ?q"
      by (simp only: mult_1)
    moreover have "pow2 (- 1074) \<le> pow2 ?q"
      by (intro pow2_mono quantum_ge)
    ultimately have "pow2 (- 1074) \<le> of_int ?m * pow2 ?q" by linarith
    with pos show ?thesis
      by (simp add: round64_def Let_def)
  qed
qed

lemma round64_pos:
  assumes "pow2 (- 1074) \<le> x"
  shows "round64 x \<noteq> Finite 0"
proof -
  have pos: "0 < x" using assms pow2_pos [of "- 1074"] by linarith
  let ?q = "quantum x"
  let ?m = "round_half_even (x / pow2 ?q)"
  have "pow2 ?q \<le> x"
  proof (cases "- 1022 \<le> binade x")
    case True
    then have "?q = binade x - 52" by (simp add: quantum_def)
    then have "pow2 ?q \<le> pow2 (binade x)" by (simp add: pow2_mono)
    also have "\<dots> \<le> \<bar>x\<bar>" using pos by (intro binade_bounds) simp
    finally show ?thesis using pos by simp
  next
    case False
    then have "?q = - 1074" by (simp add: quantum_def)
    with assms show ?thesis by simp
  qed
  then have "of_int 1 \<le> x / pow2 ?q" by (simp add: pos_le_divide_eq)
  then have "1 \<le> ?m" by (rule round_half_even_ge)
  then have "(0 :: real) < of_int ?m" by simp
  then have "0 < of_int ?m * pow2 ?q" by simp
  with pos show ?thesis
    by (auto simp: round64_def Let_def)
qed


lemma round64_not_NaN [simp]: "round64 x \<noteq> NaN"
  by (simp add: round64_def Let_def)















lemma round64_one: "round64 1 = Finite 1"
  using round64_normal [of 0 1] by (simp add: pow2_def round_half_even_def)








lemma pow2_neq_zero [simp]: "pow2 e \<noteq> 0"
  using pow2_pos [of e] by linarith

lemma pow2_le_nonneg: "pow2 e \<le> u \<Longrightarrow> 0 \<le> u"
  using pow2_pos [of e] by linarith

lemma round64_grid:
  assumes "round64 x = Finite y"
  shows "y = 0 \<or> pow2 (- 1074) \<le> \<bar>y\<bar>"
proof (cases "x = 0")
  case True
  with assms show ?thesis by (simp add: round64_def)
next
  case False
  let ?q = "quantum x"
  let ?m = "round_half_even (x / pow2 ?q)"
  from False assms have y: "y = of_int ?m * pow2 ?q"
    by (auto simp: round64_def Let_def split: if_splits)
  show ?thesis
  proof (cases "?m = 0")
    case True
    with y show ?thesis by simp
  next
    case False
    then have "1 \<le> \<bar>?m\<bar>" by simp
    then have "(1 :: real) \<le> \<bar>of_int ?m\<bar>" by (metis of_int_abs of_int_1_le_iff)
    then have "1 * pow2 ?q \<le> \<bar>of_int ?m\<bar> * pow2 ?q"
      by (intro mult_right_mono) simp_all
    then have "pow2 ?q \<le> \<bar>y\<bar>"
      by (simp add: y abs_mult)
    moreover have "pow2 (- 1074) \<le> pow2 ?q"
      by (intro pow2_mono quantum_ge)
    ultimately show ?thesis by linarith
  qed
qed

lemma is_float64_grid:
  assumes "is_float64 x"
  shows "\<exists>n :: int. x = of_int n * pow2 (- 1074)"
proof (cases "x = 0")
  case True
  then have "x = of_int 0 * pow2 (- 1074)" by simp
  then show ?thesis by blast
next
  case False
  let ?q = "quantum x"
  let ?m = "round_half_even (x / pow2 ?q)"
  from False assms have x: "x = of_int ?m * pow2 ?q"
    by (auto simp: is_float64_def round64_def Let_def split: if_splits)
  have "?q = (?q + 1074) + (- 1074)" by simp
  then have "pow2 ?q = pow2 (?q + 1074) * pow2 (- 1074)"
    by (metis pow2_add)
  moreover have "pow2 (?q + 1074) = of_int (2 ^ nat (?q + 1074))"
    using quantum_ge [of x] by (intro pow2_nat) simp
  ultimately have "x = of_int (?m * 2 ^ nat (?q + 1074)) * pow2 (- 1074)"
    using x by (simp only: of_int_mult mult.assoc)
  then show ?thesis by blast
qed

lemma float64_gap:
  assumes "is_float64 x" and "is_float64 y" and "x \<noteq> y"
  shows "pow2 (- 1074) \<le> \<bar>x - y\<bar>"
proof -
  from is_float64_grid [OF assms(1)] obtain n where n: "x = of_int n * pow2 (- 1074)" by blast
  from is_float64_grid [OF assms(2)] obtain k where k: "y = of_int k * pow2 (- 1074)" by blast
  from assms(3) n k have "n \<noteq> k" by auto
  then have "1 \<le> \<bar>n - k\<bar>" by simp
  then have "(1 :: real) \<le> \<bar>of_int (n - k)\<bar>" by (metis of_int_abs of_int_1_le_iff)
  then have "1 * pow2 (- 1074) \<le> \<bar>of_int (n - k)\<bar> * pow2 (- 1074)"
    by (intro mult_right_mono) simp_all
  moreover have "x - y = of_int (n - k) * pow2 (- 1074)"
    by (simp add: n k algebra_simps)
  ultimately show ?thesis
    by (simp add: abs_mult)
qed

lemma quantum_le:
  assumes "pow2 (- 1074) \<le> \<bar>x\<bar>"
  shows "pow2 (quantum x) \<le> \<bar>x\<bar>"
proof (cases "- 1022 \<le> binade x")
  case True
  have nz: "x \<noteq> 0" using assms pow2_pos [of "- 1074"] by auto
  from True have "quantum x = binade x - 52" by (simp add: quantum_def)
  then have "pow2 (quantum x) \<le> pow2 (binade x)" by (simp add: pow2_mono)
  also have "\<dots> \<le> \<bar>x\<bar>" using nz by (rule binade_bounds)
  finally show ?thesis .
next
  case False
  then have "quantum x = - 1074" by (simp add: quantum_def)
  with assms show ?thesis by simp
qed

lemma round64_nonzero:
  assumes "pow2 (- 1074) \<le> \<bar>x\<bar>"
  shows "round64 x \<noteq> Finite 0"
proof -
  have nz: "x \<noteq> 0" using assms pow2_pos [of "- 1074"] by auto
  let ?q = "quantum x"
  let ?m = "round_half_even (x / pow2 ?q)"
  have q: "pow2 ?q \<le> \<bar>x\<bar>" using assms by (rule quantum_le)
  have "?m \<noteq> 0"
  proof (cases "0 < x")
    case True
    with q have "of_int 1 \<le> x / pow2 ?q" by (simp add: pos_le_divide_eq)
    then have "1 \<le> ?m" by (rule round_half_even_ge)
    then show ?thesis by simp
  next
    case False
    with nz q have "x \<le> - pow2 ?q" by simp
    then have "x / pow2 ?q \<le> of_int (- 1)" by (simp add: pos_divide_le_eq)
    then have "?m \<le> - 1" by (rule round_half_even_le)
    then show ?thesis by simp
  qed
  then have "of_int ?m * pow2 ?q \<noteq> 0" by simp
  with nz show ?thesis
    by (auto simp: round64_def Let_def)
qed

lemma float64_diff_zero:
  assumes "is_float64 x" and "is_float64 y"
  shows "round64 (x - y) = Finite 0 \<longleftrightarrow> x = y"
proof
  assume z: "round64 (x - y) = Finite 0"
  show "x = y"
  proof (rule ccontr)
    assume "x \<noteq> y"
    from round64_nonzero [OF float64_gap [OF assms this]] z show False by simp
  qed
next
  assume "x = y"
  then show "round64 (x - y) = Finite 0" by (simp add: round64_def)
qed

lemma grid_nonneg_abs_round: "grid_nonneg (f_abs (round64 z))"
proof (cases "round64 z")
  case (Finite y)
  from round64_grid [OF this] Finite show ?thesis
    by (auto simp: grid_nonneg_def f_abs_def)
next
  case NaN
  then show ?thesis by simp
next
  case PosInf
  then show ?thesis by (simp add: grid_nonneg_def f_abs_def)
next
  case NegInf
  then show ?thesis by (simp add: grid_nonneg_def f_abs_def)
qed

lemma grid_nonneg_add:
  assumes "grid_nonneg a" and "grid_nonneg b"
  shows "grid_nonneg (f_add a b)"
    and "f_add a b = Finite 0 \<longleftrightarrow> a = Finite 0 \<and> b = Finite 0"
proof -
  have "grid_nonneg (f_add a b) \<and> (f_add a b = Finite 0 \<longleftrightarrow> a = Finite 0 \<and> b = Finite 0)"
  proof (cases "a = PosInf \<or> b = PosInf")
    case True
    with assms show ?thesis
      by (auto simp: grid_nonneg_def)
  next
    case False
    with assms obtain u v where a: "a = Finite u" and b: "b = Finite v"
      and u: "u = 0 \<or> pow2 (- 1074) \<le> u" and v: "v = 0 \<or> pow2 (- 1074) \<le> v"
      by (auto simp: grid_nonneg_def)
    have u0: "0 \<le> u" using u by (auto dest: pow2_le_nonneg)
    have v0: "0 \<le> v" using v by (auto dest: pow2_le_nonneg)
    have g: "grid_nonneg (round64 (u + v))"
      using round64_nonneg [of "u + v"] u0 v0 by (simp add: grid_nonneg_def)
    have z: "round64 (u + v) = Finite 0 \<longleftrightarrow> u = 0 \<and> v = 0"
    proof (cases "u = 0 \<and> v = 0")
      case True
      then show ?thesis by (simp add: round64_def)
    next
      case False
      with u v u0 v0 have "pow2 (- 1074) \<le> u + v" by auto
      from round64_pos [OF this] False show ?thesis by simp
    qed
    from g z show ?thesis by (simp add: a b)
  qed
  then show "grid_nonneg (f_add a b)"
    and "f_add a b = Finite 0 \<longleftrightarrow> a = Finite 0 \<and> b = Finite 0"
    by simp_all
qed

lemma grid_nonneg_foldl:
  assumes "grid_nonneg a" and "\<forall>b \<in> set S. grid_nonneg b"
  shows "grid_nonneg (foldl f_add a S)
       \<and> (foldl f_add a S = Finite 0 \<longleftrightarrow> a = Finite 0 \<and> (\<forall>b \<in> set S. b = Finite 0))"
  using assms
proof (induction S arbitrary: a)
  case Nil
  then show ?case by simp
next
  case (Cons b S)
  then have b: "grid_nonneg b" and S: "\<forall>c \<in> set S. grid_nonneg c" by simp_all
  from grid_nonneg_add [OF Cons.prems(1) b] Cons.IH [OF _ S, of "f_add a b"]
  show ?case by auto
qed

lemma grid_nonneg_not_NaN: "grid_nonneg a \<Longrightarrow> a \<noteq> NaN"
  by (auto simp: grid_nonneg_def)

lemma grid_nonneg_le: "grid_nonneg a \<Longrightarrow> f_le (Finite 0) a"
  by (auto simp: grid_nonneg_def dest: pow2_le_nonneg)

lemma np_sum_grid:
  assumes "\<forall>b \<in> set S. grid_nonneg b"
  shows "grid_nonneg (np_sum (NaN # S))"
    and "np_sum (NaN # S) = Finite 0 \<longleftrightarrow> (\<forall>b \<in> set S. b = Finite 0)"
proof -
  have "filter (\<lambda>x. x \<noteq> NaN) S = S"
    using assms by (auto simp: filter_id_conv dest: grid_nonneg_not_NaN)
  then have s: "np_sum (NaN # S) = foldl f_add (Finite 0) S"
    by (simp add: np_sum_def)
  have z: "grid_nonneg (Finite 0)" by (simp add: grid_nonneg_def)
  from grid_nonneg_foldl [OF z assms] s
  show "grid_nonneg (np_sum (NaN # S))"
    and "np_sum (NaN # S) = Finite 0 \<longleftrightarrow> (\<forall>b \<in> set S. b = Finite 0)"
    by simp_all
qed

lemma f_sub_Finite: "f_sub (Finite y) (Finite x) = round64 (y - x)"
  by (simp add: f_sub_def f_neg_def)

lemma f_abs_zero: "f_abs a = Finite 0 \<longleftrightarrow> a = Finite 0"
  by (cases a) (simp_all add: f_abs_def)

lemma abs_diffs_grid:
  "\<forall>b \<in> set (map f_abs (diff_from (Finite x) (map Finite xs))). grid_nonneg b"
  by (induction xs arbitrary: x) (simp_all add: f_sub_Finite grid_nonneg_abs_round)

lemma constant_Cons: "is_constant (x # xs) \<longleftrightarrow> (\<forall>y \<in> set xs. y = x)"
  unfolding is_constant_def by (simp, metis)

lemma abs_diffs_constant:
  assumes "\<forall>y \<in> set xs. y = x"
  shows "\<forall>b \<in> set (map f_abs (diff_from (Finite x) (map Finite xs))). b = Finite 0"
  using assms
  by (induction xs arbitrary: x) (simp_all add: f_sub_Finite f_abs_def round64_def)

lemma abs_diffs_zero:
  assumes "is_float64 x" and "\<forall>y \<in> set xs. is_float64 y"
    and "\<forall>b \<in> set (map f_abs (diff_from (Finite x) (map Finite xs))). b = Finite 0"
  shows "\<forall>y \<in> set xs. y = x"
  using assms
proof (induction xs arbitrary: x)
  case Nil
  then show ?case by simp
next
  case (Cons y ys)
  then have fy: "is_float64 y" and fys: "\<forall>z \<in> set ys. is_float64 z" by simp_all
  from Cons.prems(3) have "f_abs (round64 (y - x)) = Finite 0"
    by (simp add: f_sub_Finite)
  then have "round64 (y - x) = Finite 0" by (simp only: f_abs_zero)
  then have yx: "y = x" using float64_diff_zero [OF fy Cons.prems(1)] by simp
  from Cons.prems(3) have "\<forall>b \<in> set (map f_abs (diff_from (Finite y) (map Finite ys))). b = Finite 0"
    by simp
  from Cons.IH [OF fy fys this] yx show ?case by simp
qed

lemma path_sum_Nil: "path_sum [] = Finite 0"
  by (simp add: path_sum_def series_diff_def series_abs_def np_sum_def)

lemma path_sum_Cons:
  "path_sum (x # xs) = np_sum (NaN # map f_abs (diff_from (Finite x) (map Finite xs)))"
  by (simp add: path_sum_def series_diff_def series_abs_def f_abs_def)

lemma path_sum_grid: "grid_nonneg (path_sum xs)"
proof (cases xs)
  case Nil
  then show ?thesis by (simp add: path_sum_Nil grid_nonneg_def)
next
  case (Cons x ys)
  with np_sum_grid(1) [OF abs_diffs_grid, of x ys] show ?thesis
    by (simp only: path_sum_Cons)
qed

lemma path_sum_constant: "is_constant xs \<Longrightarrow> path_sum xs = Finite 0"
proof (cases xs)
  case Nil
  then show ?thesis by (simp add: path_sum_Nil)
next
  case (Cons x ys)
  assume "is_constant xs"
  with Cons have "\<forall>y \<in> set ys. y = x" by (simp only: constant_Cons)
  from abs_diffs_constant [OF this] np_sum_grid(2) [OF abs_diffs_grid, of x ys] Cons
  show ?thesis by (simp only: path_sum_Cons)
qed

lemma path_sum_zero:
  assumes "\<forall>x \<in> set xs. is_float64 x" and "path_sum xs = Finite 0"
  shows "is_constant xs"
proof (cases xs)
  case Nil
  then show ?thesis by (simp add: is_constant_def)
next
  case (Cons x ys)
  with assms(1) have fx: "is_float64 x" and fys: "\<forall>y \<in> set ys. is_float64 y" by simp_all
  from assms(2) Cons np_sum_grid(2) [OF abs_diffs_grid, of x ys]
  have "\<forall>b \<in> set (map f_abs (diff_from (Finite x) (map Finite ys))). b = Finite 0"
    by (simp only: path_sum_Cons)
  from abs_diffs_zero [OF fx fys this] Cons show ?thesis
    by (simp only: constant_Cons)
qed

lemma CalcRBindex_valid:
  "CalcRBindex (map Some xs) = f_div (path_sum xs) (value_sum xs)"
  by (simp add: CalcRBindex_def Let_def path_sum_def value_sum_def o_def)

lemma f_div_grid_positive:
  assumes "grid_nonneg p" and "0 < s"
  shows "f_le (Finite 0) (f_div p (Finite s))"
proof (cases "p = PosInf")
  case True
  with assms(2) show ?thesis by simp
next
  case False
  with assms(1) obtain u where p: "p = Finite u" and u: "0 \<le> u"
    by (auto simp: grid_nonneg_def dest: pow2_le_nonneg)
  from u assms(2) have "0 \<le> u / s" by simp
  from round64_nonneg [OF this] have "grid_nonneg (round64 (u / s))"
    by (simp add: grid_nonneg_def)
  then have "f_le (Finite 0) (round64 (u / s))" by (rule grid_nonneg_le)
  with p assms(2) show ?thesis by simp
qed

lemma f_div_zero_underflow:
  assumes "grid_nonneg p" and "0 < s" and "f_div p (Finite s) = Finite 0"
  shows "\<exists>u. p = Finite u \<and> 0 \<le> u \<and> u / s < pow2 (- 1074)"
proof -
  from assms(2,3) have "p \<noteq> PosInf" by auto
  with assms(1) obtain u where p: "p = Finite u" and u: "0 \<le> u"
    by (auto simp: grid_nonneg_def dest: pow2_le_nonneg)
  from assms(2,3) p have z: "round64 (u / s) = Finite 0" by simp
  have "u / s < pow2 (- 1074)"
  proof (rule ccontr)
    assume "\<not> u / s < pow2 (- 1074)"
    then have "pow2 (- 1074) \<le> u / s" by simp
    from round64_pos [OF this] z show False by simp
  qed
  with p u show ?thesis by blast
qed

lemma round64_zero: "round64 0 = Finite 0"
  by (simp add: round64_def)

lemma round64_small:
  "round64 2 = Finite 2" "round64 3 = Finite 3" "round64 4 = Finite 4"
  "round64 7 = Finite 7" "round64 8 = Finite 8" "round64 12 = Finite 12"
  "round64 (- 1) = Finite (- 1)" "round64 (- 2) = Finite (- 2)"
  using round64_normal [of 1 2] round64_normal [of 1 3] round64_normal [of 2 4]
    round64_normal [of 2 7] round64_normal [of 3 8] round64_normal [of 3 12]
    round64_normal [of 0 "- 1"] round64_normal [of 1 "- 2"]
  by (simp_all add: pow2_def round_half_even_def)

lemma round64_three_sevenths:
  "round64 (3 / 7) = Finite (7720456504063707 / 18014398509481984)"
  using round64_normal [of "- 2" "3 / 7"]
  by (simp add: pow2_def round_half_even_def)

section \<open>Properties of the annual aggregation\<close>

lemma collect_rows_Inr:
  "collect_rows rs = Inr rows \<Longrightarrow> rs = map (\<lambda>w. (fst w, Inr (snd w))) rows"
proof (induction rs arbitrary: rows rule: collect_rows.induct)
  case 1
  then show ?case by simp
next
  case (2 l e rs)
  then show ?case by simp
next
  case (3 l r rs)
  then show ?case by (auto split: sum.splits)
qed

lemma GetAnnualStatistics_rows:
  assumes "\<forall>r \<in> set DataDF. valid_date (fst r)"
    and "GetAnnualStatistics lib DataDF = Inr WYDataDF"
  shows "map (\<lambda>w. (fst w, Inr (snd w))) WYDataDF
         = map (\<lambda>l. (l, annual_row lib (bucket_rows (column_Discharge DataDF) l)))
             (AS_OCT_labels (column_Discharge DataDF))"
proof -
  let ?S = "column_Discharge DataDF"
  have v: "\<forall>r \<in> set ?S. valid_date (fst r)"
    using assms(1) by (simp add: column_Discharge_def)
  from collect_rows_Inr [OF assms(2) [unfolded GetAnnualStatistics_def]]
  have "map (\<lambda>w. (fst w, Inr (snd w))) WYDataDF
        = map (\<lambda>b. (fst b, annual_row lib (snd b))) (resample_AS_OCT ?S)"
    by simp
  then show ?thesis
    by (simp add: resample_bucket [OF v] o_def)
qed

section \<open>Claims about \<^verbatim>\<open>ClipData\<close>\<close>

text \<open>
  Claim C1. For an ascending table and a start not after the end, \<^verbatim>\<open>ClipData\<close> returns
  the rows dated in the range and the number of missing values plus the number of rows
  clipped (lemma \<open>ClipData_ordered_range\<close>). With the start after the end the count
  is another number: a row dated between the end and the start is before the start and
  after the end, and \<^verbatim>\<open>b.sum() + a.sum()\<close> counts it twice. On the table with the one
  row dated 2000-01-07, clipped from 2000-01-10 to 2000-01-05, the code returns the empty
  table and the count 2, where no value is missing and one row is clipped.
\<close>

theorem ClipData_reversed_range_counts_twice:
  "ClipData [((2000, 1, 7), obs (Some 3))] (2000, 1, 10) (2000, 1, 5) = ([], 2)
   \<and> isna_sum [((2000, 1, 7), obs (Some 3))] = 0
   \<and> rows_excluded [((2000, 1, 7), obs (Some 3))] (2000, 1, 10) (2000, 1, 5) = 1
   \<and> index_lt [((2000, 1, 7), obs (Some 3))] (2000, 1, 10) = [True]
   \<and> index_gt [((2000, 1, 7), obs (Some 3))] (2000, 1, 5) = [True]"
  by (simp add: ClipData_def Let_def isna_sum_def index_lt_def index_gt_def mask_sum_def
      index_def rows_excluded_def obs_def label_slice_def searchsorted_left_def
      searchsorted_right_def)

text \<open>
  Claim C9, as the code has it. Clipping the clipped table of an ascending table to the
  same range returns the same table. The count returned by the second call is the number
  of missing discharge values within the range; it never exceeds the count of the first
  call, and the two calls return the same pair exactly when no row of the original table
  lies outside the range.
\<close>

theorem ClipData_twice:
  assumes "monotonic_increasing S"
  shows "fst (ClipData (fst (ClipData S a b)) a b) = fst (ClipData S a b)
       \<and> snd (ClipData (fst (ClipData S a b)) a b) = isna_sum (fst (ClipData S a b))
       \<and> snd (ClipData (fst (ClipData S a b)) a b) \<le> snd (ClipData S a b)
       \<and> (ClipData (fst (ClipData S a b)) a b = ClipData S a b
            \<longleftrightarrow> rows_excluded S a b = 0)"
proof -
  let ?T = "filter (in_range a b) S"
  have once: "fst (ClipData S a b) = ?T"
    using assms by (rule ClipData_fst)
  have mono: "monotonic_increasing ?T"
    using assms by (rule monotonic_increasing_filter)
  have tbl: "fst (ClipData ?T a b) = ?T"
    using ClipData_fst [OF mono, of a b] by simp
  have cnt: "snd (ClipData ?T a b) = isna_sum ?T"
    by (simp add: ClipData_snd rows_before_in_range rows_after_in_range)
  have le: "isna_sum ?T \<le> snd (ClipData S a b)"
    using isna_sum_filter_le [of "in_range a b" S] by (simp add: ClipData_snd)
  have eq: "ClipData ?T a b = ClipData S a b \<longleftrightarrow> rows_excluded S a b = 0"
  proof
    assume "ClipData ?T a b = ClipData S a b"
    then have "snd (ClipData ?T a b) = snd (ClipData S a b)" by simp
    then have "isna_sum ?T = isna_sum S + rows_before S a + rows_after S b"
      using cnt by (simp add: ClipData_snd)
    with isna_sum_filter_le [of "in_range a b" S]
    have "rows_before S a + rows_after S b = 0" by arith
    then show "rows_excluded S a b = 0" by (simp only: rows_none_outside)
  next
    assume none: "rows_excluded S a b = 0"
    then have same: "?T = S" by (simp only: rows_excluded_none)
    from none have "rows_before S a + rows_after S b = 0" by (simp only: rows_none_outside)
    then have "snd (ClipData S a b) = isna_sum S" by (simp add: ClipData_snd)
    with once same cnt tbl show "ClipData ?T a b = ClipData S a b"
      by (simp add: prod_eq_iff)
  qed
  show ?thesis
    using once tbl cnt le eq by simp
qed

theorem ClipData_twice_witness:
  "monotonic_increasing january
   \<and> fst (ClipData (fst (ClipData january (2000, 1, 2) (2000, 1, 3))) (2000, 1, 2) (2000, 1, 3))
       = [((2000, 1, 2), obs None), ((2000, 1, 3), obs (Some 5))]
   \<and> snd (ClipData (fst (ClipData january (2000, 1, 2) (2000, 1, 3))) (2000, 1, 2) (2000, 1, 3)) = 1
   \<and> snd (ClipData january (2000, 1, 2) (2000, 1, 3)) = 3"
proof -
  have m: "monotonic_increasing january"
    by (simp add: monotonic_increasing_def index_def january_def)
  have d: "filter (in_range (2000, 1, 2) (2000, 1, 3)) january
           = [((2000, 1, 2), obs None), ((2000, 1, 3), obs (Some 5))]"
    by (simp add: in_range_def january_def)
  have a: "isna_sum [((2000, 1, 2), obs None), ((2000, 1, 3), obs (Some 5))] = 1"
    by (simp add: isna_sum_def obs_def)
  have c: "snd (ClipData january (2000, 1, 2) (2000, 1, 3)) = 3"
    by (simp add: ClipData_def Let_def isna_sum_def index_lt_def index_gt_def mask_sum_def
        index_def january_def obs_def)
  from ClipData_twice [OF m, of "(2000, 1, 2)" "(2000, 1, 3)"]
  show ?thesis
    using m a c d by (simp add: ClipData_fst)
qed

text \<open>
  Claim C9 as the specification words it, with the count included, fails: a table with
  one row dated before the range gives the count 1 on the first call and 0 on the second.
\<close>

theorem ClipData_idempotent_counterexample:
  "ClipData (fst (ClipData [((2000, 1, 1), obs (Some 3))] (2000, 1, 5) (2000, 1, 10)))
       (2000, 1, 5) (2000, 1, 10)
   \<noteq> ClipData [((2000, 1, 1), obs (Some 3))] (2000, 1, 5) (2000, 1, 10)"
  by (simp add: ClipData_def Let_def isna_sum_def index_lt_def index_gt_def mask_sum_def
      index_def label_slice_def searchsorted_left_def searchsorted_right_def obs_def)

text \<open>
  Claim C10. \<^verbatim>\<open>ClipData\<close> leaves the table it is given as it was: after the call the
  object behind the caller's reference holds the same rows, hence the same number of
  missing discharge values, and so does every other object of the store. The table
  returned is a new object, at a reference that was not in use, and it holds the clipped
  rows.
\<close>

theorem ClipData_keeps_argument:
  assumes "DataDF < length h"
      and "ClipData_obj h DataDF startDate endDate = (h', DataDF', MissingValues)"
  shows "h' ! DataDF = h ! DataDF
       \<and> isna_sum (h' ! DataDF) = isna_sum (h ! DataDF)
       \<and> DataDF' \<noteq> DataDF
       \<and> DataDF' = length h
       \<and> length h' = Suc (length h)
       \<and> take (length h) h' = h
       \<and> (h' ! DataDF', MissingValues) = ClipData (h ! DataDF) startDate endDate"
  using assms by (auto simp: ClipData_obj_eq nth_append)

theorem ClipData_keeps_argument_witness:
  "(0 :: nat) < length [january]
   \<and> ClipData_obj [january] 0 (2000, 1, 2) (2000, 1, 3)
       = ([january, [((2000, 1, 2), obs None), ((2000, 1, 3), obs (Some 5))]], 1, 3)
   \<and> [january, [((2000, 1, 2), obs None), ((2000, 1, 3), obs (Some 5))]] ! 0 = [january] ! 0
   \<and> ((1 :: nat) \<noteq> 0)"
proof -
  have r: "ClipData_obj [january] 0 (2000, 1, 2) (2000, 1, 3)
       = ([january, [((2000, 1, 2), obs None), ((2000, 1, 3), obs (Some 5))]], 1, 3)"
    by (simp add: ClipData_obj_def alloc_def Let_def isna_sum_def index_lt_def index_gt_def
        mask_sum_def index_def label_slice_def searchsorted_left_def searchsorted_right_def
        january_def obs_def)
  have l: "(0 :: nat) < length [january]" by simp
  from ClipData_keeps_argument [OF l r]
  show ?thesis
    using r by simp
qed

section \<open>Claims about the metric functions\<close>




text \<open>
  Claim C3. On the empty series \<^verbatim>\<open>CalcTqmean\<close> does not return NaN: the mask selects
  nothing and \<^verbatim>\<open>len(a)/len(Qvalues)\<close> divides the integer 0 by the integer 0, which
  raises \<^verbatim>\<open>ZeroDivisionError\<close>.
\<close>

theorem CalcTqmean_empty_raises: "CalcTqmean [] = Inl ZeroDivisionError"
  by (simp add: CalcTqmean_def Let_def py_truediv_def series_index_def gt_mask_def
      boolean_index_def)

text \<open>
  Claim C4, as the code has it. For a series of floats without missing values,
  \<^verbatim>\<open>CalcRBindex\<close> is the binary64 quotient of the sum of the absolute day-to-day
  differences by the sum of the values, both added in binary64. The sum of the absolute
  differences is at least 0, and it is 0 exactly when the series is constant (a series
  of at most one value is constant). When the sum of the values is a positive number,
  the index is at least 0; it is 0 when the series is constant, and when it is 0 the
  series is constant or the quotient is below the least positive float
  \<open>pow2 (- 1074)\<close> and rounds to 0. When the sum of the values is 0, as it is for the
  empty series, the index is NaN for a constant series and \<open>PosInf\<close> for any other.
\<close>

theorem CalcRBindex_quotient:
  assumes "\<forall>x \<in> set xs. is_float64 x"
  shows "CalcRBindex (map Some xs) = f_div (path_sum xs) (value_sum xs)
       \<and> f_le (Finite 0) (path_sum xs)
       \<and> (path_sum xs = Finite 0 \<longleftrightarrow> is_constant xs)
       \<and> (\<forall>s. value_sum xs = Finite s \<and> 0 < s \<longrightarrow>
             f_le (Finite 0) (CalcRBindex (map Some xs))
             \<and> (is_constant xs \<longrightarrow> CalcRBindex (map Some xs) = Finite 0)
             \<and> (CalcRBindex (map Some xs) = Finite 0 \<longrightarrow>
                  is_constant xs
                  \<or> (\<exists>u. path_sum xs = Finite u \<and> 0 < u \<and> u / s < pow2 (- 1074))))
       \<and> (value_sum xs = Finite 0 \<longrightarrow>
             CalcRBindex (map Some xs) = (if is_constant xs then NaN else PosInf))"
proof -
  let ?p = "path_sum xs"
  have v: "CalcRBindex (map Some xs) = f_div ?p (value_sum xs)"
    by (rule CalcRBindex_valid)
  have g: "grid_nonneg ?p" by (rule path_sum_grid)
  have le: "f_le (Finite 0) ?p" using g by (rule grid_nonneg_le)
  have c: "?p = Finite 0 \<longleftrightarrow> is_constant xs"
    using path_sum_zero [OF assms] path_sum_constant by blast
  have pos: "f_le (Finite 0) (CalcRBindex (map Some xs))
             \<and> (is_constant xs \<longrightarrow> CalcRBindex (map Some xs) = Finite 0)
             \<and> (CalcRBindex (map Some xs) = Finite 0 \<longrightarrow>
                  is_constant xs
                  \<or> (\<exists>u. ?p = Finite u \<and> 0 < u \<and> u / s < pow2 (- 1074)))"
    if s: "value_sum xs = Finite s" "0 < s" for s
  proof -
    have r: "CalcRBindex (map Some xs) = f_div ?p (Finite s)"
      using v s(1) by simp
    have a1: "f_le (Finite 0) (CalcRBindex (map Some xs))"
      unfolding r using g s(2) by (rule f_div_grid_positive)
    have a2: "CalcRBindex (map Some xs) = Finite 0" if "is_constant xs"
    proof -
      from that c have "?p = Finite 0" by simp
      with r s(2) show ?thesis by (simp add: round64_def)
    qed
    have a3: "is_constant xs \<or> (\<exists>u. ?p = Finite u \<and> 0 < u \<and> u / s < pow2 (- 1074))"
      if z: "CalcRBindex (map Some xs) = Finite 0"
    proof (cases "is_constant xs")
      case True
      then show ?thesis by simp
    next
      case False
      from z r have "f_div ?p (Finite s) = Finite 0" by simp
      from f_div_zero_underflow [OF g s(2) this]
      obtain u where u: "?p = Finite u" "0 \<le> u" "u / s < pow2 (- 1074)" by blast
      from False c u(1) have "u \<noteq> 0" by auto
      with u show ?thesis by auto
    qed
    from a1 a2 a3 show ?thesis by blast
  qed
  have zero: "CalcRBindex (map Some xs) = (if is_constant xs then NaN else PosInf)"
    if s: "value_sum xs = Finite 0"
  proof (cases "is_constant xs")
    case True
    with c v s show ?thesis by simp
  next
    case False
    with c have nz: "?p \<noteq> Finite 0" by simp
    from g nz have "?p = PosInf \<or> (\<exists>u. ?p = Finite u \<and> 0 < u)"
      by (auto simp: grid_nonneg_def dest!: pow2_le_nonneg)
    with v s False show ?thesis by auto
  qed
  from v le c pos zero show ?thesis by blast
qed

theorem CalcRBindex_quotient_witness:
  "is_float64 1 \<and> is_float64 2 \<and> is_float64 4 \<and> is_float64 (- 1)
   \<and> value_sum [1, 2, 4] = Finite 7
   \<and> path_sum [1, 2, 4] = Finite 3
   \<and> CalcRBindex [Some 1, Some 2, Some 4] = Finite (7720456504063707 / 18014398509481984)
   \<and> value_sum [4, 4, 4] = Finite 12
   \<and> is_constant [4, 4, 4]
   \<and> CalcRBindex [Some 4, Some 4, Some 4] = Finite 0
   \<and> value_sum [1, - 1] = Finite 0
   \<and> \<not> is_constant [1, - 1]
   \<and> CalcRBindex [Some 1, Some (- 1)] = PosInf"
proof -
  note r = round64_zero round64_one round64_small
  have f: "is_float64 1" "is_float64 2" "is_float64 4" "is_float64 (- 1)"
    by (simp_all add: is_float64_def r)
  have v1: "value_sum [1, 2, 4] = Finite 7"
    and v2: "value_sum [4, 4, 4] = Finite 12"
    and v3: "value_sum [1, - 1] = Finite 0"
    by (simp_all add: value_sum_def np_sum_def r)
  have p1: "path_sum [1, 2, 4] = Finite 3"
    by (simp add: path_sum_def series_diff_def series_abs_def np_sum_def f_sub_Finite
        f_abs_def r)
  have c2: "is_constant [4, 4, 4]" and c3: "\<not> is_constant [1, - 1]"
    by (simp_all add: is_constant_def)
  from CalcRBindex_quotient [of "[1, 2, 4]"] f
  have a: "CalcRBindex [Some 1, Some 2, Some 4] = Finite (7720456504063707 / 18014398509481984)"
    by (simp add: v1 p1 round64_three_sevenths)
  from CalcRBindex_quotient [of "[4, 4, 4]"] f c2
  have b: "CalcRBindex [Some 4, Some 4, Some 4] = Finite 0"
    by (simp add: v2 r)
  have fl: "\<forall>x \<in> set [1, - 1 :: real]. is_float64 x"
    using f by simp
  from CalcRBindex_quotient [OF fl]
  have "value_sum [1, - 1] = Finite 0 \<longrightarrow>
        CalcRBindex (map Some [1, - 1]) = (if is_constant [1, - 1] then NaN else PosInf)"
    by blast
  with v3 c3 have c: "CalcRBindex [Some 1, Some (- 1)] = PosInf"
    by simp
  from f v1 v2 v3 p1 c2 c3 a b c show ?thesis
    by (simp only: simp_thms)
qed

text \<open>
  Claim C4 as the specification words it fails on the empty series, which is constant
  and has at most one element: both sums are 0 and the index is NaN, which is neither
  0 nor at least 0.
\<close>

theorem CalcRBindex_empty_counterexample:
  "\<not> (f_le (Finite 0) (CalcRBindex [])
      \<and> (CalcRBindex [] = Finite 0 \<longleftrightarrow> is_constant [] \<or> length ([] :: real list) \<le> 1))"
  by (simp add: CalcRBindex_def Let_def series_diff_def series_abs_def np_sum_def)







section \<open>Claims about the aggregations\<close>

text \<open>
  Claim C7. Whenever \<^verbatim>\<open>GetAnnualStatistics\<close> returns a table, its rows are labelled by
  the October 1 of consecutive years, ascending, from the water year of the earliest
  record to that of the latest. The row with label \<open>l\<close> holds the statistics of exactly
  the records whose water year (the October 1 on or before their date) is \<open>l\<close>, and
  every record has its row. The record dated 1999-10-01 belongs to the row labelled
  1999-10-01, the record dated 1999-09-30 to the row labelled 1998-10-01.
\<close>

theorem water_year_buckets:
  assumes "\<forall>r \<in> set DataDF. valid_date (fst r)"
    and "GetAnnualStatistics lib DataDF = Inr WYDataDF"
  shows "AS_OCT_label (1999, 10, 1) = (1999, 10, 1)
       \<and> AS_OCT_label (1999, 9, 30) = (1998, 10, 1)
       \<and> map fst WYDataDF = AS_OCT_labels (column_Discharge DataDF)
       \<and> sorted (map fst WYDataDF) \<and> distinct (map fst WYDataDF)
       \<and> (\<forall>r \<in> set DataDF. AS_OCT_label (fst r) \<in> fst ` set WYDataDF)
       \<and> (\<forall>w \<in> set WYDataDF.
             month (fst w) = 10 \<and> day (fst w) = 1
             \<and> annual_row lib (bucket_rows (column_Discharge DataDF) (fst w)) = Inr (snd w))"
proof -
  let ?S = "column_Discharge DataDF"
  note rows = GetAnnualStatistics_rows [OF assms]
  have a: "AS_OCT_label (1999, 10, 1) = (1999, 10, 1)"
    and b: "AS_OCT_label (1999, 9, 30) = (1998, 10, 1)"
    by (simp_all add: AS_OCT_label_def month_def year_def)
  have "map fst (map (\<lambda>w. (fst w, Inr (snd w) :: py_error + wy_row)) WYDataDF)
        = map fst (map (\<lambda>l. (l, annual_row lib (bucket_rows ?S l))) (AS_OCT_labels ?S))"
    by (simp only: rows)
  then have labs: "map fst WYDataDF = AS_OCT_labels ?S"
    by (simp add: o_def)
  have c: "\<forall>r \<in> set DataDF. AS_OCT_label (fst r) \<in> fst ` set WYDataDF"
  proof
    fix r assume "r \<in> set DataDF"
    then have "(fst r, Discharge (snd r)) \<in> set ?S"
      by (auto simp: column_Discharge_def)
    from label_in_labels [OF this] have "AS_OCT_label (fst r) \<in> set (map fst WYDataDF)"
      by (simp add: labs)
    then show "AS_OCT_label (fst r) \<in> fst ` set WYDataDF" by simp
  qed
  have d: "\<forall>w \<in> set WYDataDF.
             month (fst w) = 10 \<and> day (fst w) = 1
             \<and> annual_row lib (bucket_rows ?S (fst w)) = Inr (snd w)"
  proof
    fix w assume w: "w \<in> set WYDataDF"
    then have "fst w \<in> set (map fst WYDataDF)" by simp
    then have "fst w \<in> set (AS_OCT_labels ?S)" by (simp only: labs)
    then have oct: "month (fst w) = 10 \<and> day (fst w) = 1" by (rule labels_october)
    from w have "(fst w, Inr (snd w))
                 \<in> set (map (\<lambda>w. (fst w, Inr (snd w) :: py_error + wy_row)) WYDataDF)"
      by (simp add: image_iff) blast
    then have "(fst w, Inr (snd w))
               \<in> set (map (\<lambda>l. (l, annual_row lib (bucket_rows ?S l))) (AS_OCT_labels ?S))"
      by (simp only: rows)
    then have "annual_row lib (bucket_rows ?S (fst w)) = Inr (snd w)"
      by auto
    with oct show "month (fst w) = 10 \<and> day (fst w) = 1
             \<and> annual_row lib (bucket_rows ?S (fst w)) = Inr (snd w)" by simp
  qed
  from a b labs labels_ascending [of ?S] c d show ?thesis
    by simp
qed

theorem water_year_buckets_witness:
  "valid_date (1999, 9, 30) \<and> valid_date (1999, 10, 1)
   \<and> bucket_rows (column_Discharge autumn) (1998, 10, 1) = [Some 5]
   \<and> bucket_rows (column_Discharge autumn) (1999, 10, 1) = [Some 7]
   \<and> map (\<lambda>w. (fst w, Peak_Flow (snd w), Mean_Flow (snd w)))
         (projr (GetAnnualStatistics no_moments autumn))
       = [((1998, 10, 1), Finite 5, Finite 5), ((1999, 10, 1), Finite 7, Finite 7)]"
proof -
  let ?S = "column_Discharge autumn"
  let ?WY = "projr (GetAnnualStatistics no_moments autumn)"
  have v: "valid_date (1999, 9, 30) \<and> valid_date (1999, 10, 1)"
    by (simp add: valid_date_def month_def day_def)
  then have h: "\<forall>r \<in> set autumn. valid_date (fst r)"
    by (simp add: autumn_def)
  have l: "AS_OCT_labels ?S = [(1998, 10, 1), (1999, 10, 1)]"
    by (simp add: AS_OCT_labels_def column_Discharge_def autumn_def AS_OCT_label_def
        month_def year_def upto_rec1)
  have b1: "bucket_rows ?S (1998, 10, 1) = [Some 5]"
    and b2: "bucket_rows ?S (1999, 10, 1) = [Some 7]"
    by (simp_all add: bucket_rows_def column_Discharge_def autumn_def AS_OCT_label_def
        month_def year_def obs_def)
  have t: "\<exists>tq. CalcTqmean [Some x] = Inr tq" for x
    by (simp add: CalcTqmean_def Let_def py_truediv_def)
  have r5: "round64 5 = Finite 5"
    using round64_normal [of 2 5] by (simp add: pow2_def round_half_even_def)
  have r7: "round64 7 = Finite 7"
    using round64_normal [of 2 7] by (simp add: pow2_def round_half_even_def)
  have m: "series_mean64 [Some x] = Finite x" if "round64 x = Finite x" for x
    using that by (simp add: series_mean64_def np_sum_def)
  have row: "\<exists>r. annual_row no_moments [Some x] = Inr r \<and> Peak_Flow r = Finite x
                 \<and> Mean_Flow r = Finite x" if "round64 x = Finite x" for x
    using t [of x] m [OF that] by (auto simp: annual_row_def Let_def series_max_def no_moments_def)
  have rs: "resample_AS_OCT ?S = [((1998, 10, 1), [Some 5]), ((1999, 10, 1), [Some 7])]"
    using resample_bucket [of ?S] h l b1 b2 by (simp add: column_Discharge_def)
  have "\<exists>WY. GetAnnualStatistics no_moments autumn = Inr WY"
    using row [OF r5] row [OF r7] by (auto simp: GetAnnualStatistics_def rs)
  then have g: "GetAnnualStatistics no_moments autumn = Inr ?WY"
    by auto
  note w = water_year_buckets [OF h g]
  from w have labs: "map fst ?WY = [(1998, 10, 1), (1999, 10, 1)]"
    by (simp add: l)
  from w have rows: "\<forall>w \<in> set ?WY. annual_row no_moments (bucket_rows ?S (fst w)) = Inr (snd w)"
    by blast
  have "map (\<lambda>w. (fst w, Peak_Flow (snd w), Mean_Flow (snd w))) ?WY
        = map (\<lambda>w. (fst w, Peak_Flow (projr (annual_row no_moments (bucket_rows ?S (fst w)))),
                     Mean_Flow (projr (annual_row no_moments (bucket_rows ?S (fst w)))))) ?WY"
    using rows by (intro map_cong refl) simp
  also have "\<dots> = map (\<lambda>l. (l, Peak_Flow (projr (annual_row no_moments (bucket_rows ?S l))),
                     Mean_Flow (projr (annual_row no_moments (bucket_rows ?S l))))) (map fst ?WY)"
    by (simp add: o_def)
  also have "\<dots> = [((1998, 10, 1), Finite 5, Finite 5), ((1999, 10, 1), Finite 7, Finite 7)]"
  proof -
    have "Peak_Flow (projr (annual_row no_moments (bucket_rows ?S (1998, 10, 1)))) = Finite 5"
      and "Mean_Flow (projr (annual_row no_moments (bucket_rows ?S (1998, 10, 1)))) = Finite 5"
      unfolding b1 using row [OF r5] by auto
    moreover
    have "Peak_Flow (projr (annual_row no_moments (bucket_rows ?S (1999, 10, 1)))) = Finite 7"
      and "Mean_Flow (projr (annual_row no_moments (bucket_rows ?S (1999, 10, 1)))) = Finite 7"
      unfolding b2 using row [OF r7] by auto
    ultimately show ?thesis
      by (simp only: labs list.map)
  qed
  finally show ?thesis
    using v b1 b2 by simp
qed

text \<open>
  Claim C8, as the code has it. \<^verbatim>\<open>GetMonthlyAverages\<close> returns one row for each calendar
  month that occurs in the index of the table, ordered by month number, holding the mean
  of each metric over the rows of that month. There are as many rows as months that
  occur: at most 12, and 12 exactly when every month from January to December occurs.
\<close>

theorem GetMonthlyAverages_groups:
  "GetMonthlyAverages df =
     map (\<lambda>m. (m, map series_mean (columns (group_rows df m))))
       (sorted_list_of_set (months_present df))
   \<and> length (GetMonthlyAverages df) = card (months_present df)
   \<and> (calendar_months df \<longrightarrow>
        length (GetMonthlyAverages df) \<le> 12
        \<and> (length (GetMonthlyAverages df) = 12 \<longleftrightarrow> months_present df = {1..12}))"
  using twelve_months [of df]
  by (simp only: GetMonthlyAverages_length) (simp add: GetMonthlyAverages_rows [symmetric])

theorem GetMonthlyAverages_groups_witness:
  "calendar_months two_winters
   \<and> GetMonthlyAverages two_winters = [(1, [Some (3 / 2), Some 4]), (2, [Some 3, None])]
   \<and> card (months_present two_winters) = 2
   \<and> months_present two_winters \<noteq> {1..12}"
proof -
  have m: "months_present two_winters = {1, 2}"
    by (auto simp: months_present_def index_month_def two_winters_def month_def)
  then have c: "calendar_months two_winters"
    by (simp add: calendar_months_def)
  have g1: "map series_mean (columns (group_rows two_winters 1)) = [Some (3 / 2), Some 4]"
    by (simp add: group_rows_def two_winters_def month_def columns_def series_mean_def
        upt_rec [of _ "numeral _"])
  have g2: "map series_mean (columns (group_rows two_winters 2)) = [Some 3, None]"
    by (simp add: group_rows_def two_winters_def month_def columns_def series_mean_def
        upt_rec [of _ "numeral _"])
  have "sorted_list_of_set (set [1, 2 :: nat]) = sort (remdups [1, 2])"
    by (rule sorted_list_of_set_sort_remdups)
  then have s: "sorted_list_of_set {1, 2 :: nat} = [1, 2]"
    by simp
  have n: "{1, 2 :: nat} \<noteq> {1..12}"
    by auto
  from GetMonthlyAverages_groups [of two_winters]
  show ?thesis
    using m c g1 g2 s n by simp
qed

text \<open>
  Claim C8 as the specification words it (exactly 12 rows for every table) fails for a
  table in which not every month occurs: two Januaries give one row.
\<close>

theorem GetMonthlyAverages_one_month_counterexample:
  "length (GetMonthlyAverages [((2000, 1, 1), [Some 1, Some 2, Some 3, Some 4]),
                               ((2001, 1, 1), [Some 3, Some 2, Some 5, Some 4])]) \<noteq> 12"
  by (simp add: GetMonthlyAverages_def index_month_def month_def)

end
